theory Spec2Isabelle
  imports Complex_Main
begin

section \<open>Values and strings of the host language\<close>

text \<open>
  The client and the assistant are Python programs. A Python \<open>str\<close> is modelled as a
  \<open>string\<close>, one \<open>char\<close> for one code point, so the model covers texts whose code points
  are below 256; slices such as \<open>r.text[:600]\<close> are \<open>take 600\<close>. A decoded JSON document is
  a value of \<open>json\<close>: a \<open>dict\<close> is an association list (looked up with \<open>map_of\<close>), Python's
  unbounded \<open>int\<close> is \<open>int\<close>, and a finite \<open>float\<close> is the real number it denotes.
\<close>

datatype json =
    JNull
  | JBool bool
  | JInt int
  | JFloat real
  | JStr string
  | JArr "json list"
  | JObj "(string \<times> json) list"

type_synonym dict = "(string \<times> json) list"

text \<open>
  \<open>d.get(k, dflt)\<close> and \<open>d.get(k)\<close>. The latter answers \<open>None\<close> for an absent key, the
  value that a JSON \<open>null\<close> decodes to.
\<close>

definition get_default :: "dict \<Rightarrow> string \<Rightarrow> json \<Rightarrow> json" where
  "get_default d k dflt = (case map_of d k of None \<Rightarrow> dflt | Some v \<Rightarrow> v)"

definition get :: "dict \<Rightarrow> string \<Rightarrow> json" where
  "get d k = get_default d k JNull"

text \<open>\<open>{**d, k: v}\<close>: an existing key keeps its place, a new one goes last.\<close>

fun dict_set :: "('k \<times> 'v) list \<Rightarrow> 'k \<Rightarrow> 'v \<Rightarrow> ('k \<times> 'v) list" where
  "dict_set [] k v = [(k, v)]"
| "dict_set ((k', v') # d) k v = (if k' = k then (k, v) # d else (k', v') # dict_set d k v)"

definition dict_merge :: "('k \<times> 'v) list \<Rightarrow> ('k \<times> 'v) list \<Rightarrow> ('k \<times> 'v) list" where
  "dict_merge d extra = foldl (\<lambda>acc kv. dict_set acc (fst kv) (snd kv)) d extra"

text \<open>Truth value of an object in a condition (\<open>if x:\<close>, \<open>x or y\<close>).\<close>

fun truthy :: "json \<Rightarrow> bool" where
  "truthy JNull = False"
| "truthy (JBool b) = b"
| "truthy (JInt i) = (i \<noteq> 0)"
| "truthy (JFloat r) = (r \<noteq> 0)"
| "truthy (JStr s) = (s \<noteq> [])"
| "truthy (JArr xs) = (xs \<noteq> [])"
| "truthy (JObj kvs) = (kvs \<noteq> [])"

text \<open>\<open>str.isspace\<close> on one code point below 256.\<close>

definition py_isspace :: "char \<Rightarrow> bool" where
  "py_isspace c = (c \<in> set [CHR 0x09, CHR 0x0A, CHR 0x0B, CHR 0x0C, CHR 0x0D,
                              CHR 0x1C, CHR 0x1D, CHR 0x1E, CHR 0x1F, CHR 0x20,
                              CHR 0x85, CHR 0xA0])"

definition lstrip :: "string \<Rightarrow> string" where
  "lstrip s = dropWhile py_isspace s"

definition rstrip :: "string \<Rightarrow> string" where
  "rstrip s = rev (dropWhile py_isspace (rev s))"

definition strip :: "string \<Rightarrow> string" where
  "strip s = rstrip (lstrip s)"

definition startswith :: "string \<Rightarrow> string \<Rightarrow> bool" where
  "startswith s p = (take (length p) s = p)"

text \<open>\<open>p in s\<close> for two strings.\<close>

fun contains :: "string \<Rightarrow> string \<Rightarrow> bool" where
  "contains p [] = (p = [])"
| "contains p (c # cs) = (startswith (c # cs) p \<or> contains p cs)"

text \<open>\<open>sep.join(xs)\<close>.\<close>

fun join :: "string \<Rightarrow> string list \<Rightarrow> string" where
  "join sep [] = []"
| "join sep [x] = x"
| "join sep (x # y # ys) = x @ sep @ join sep (y # ys)"

text \<open>\<open>str.lower\<close>, on the letters below 256.\<close>

definition lower_char :: "char \<Rightarrow> char" where
  "lower_char c =
     (let n = (of_char c :: nat)
      in if (65 \<le> n \<and> n \<le> 90) \<or> (192 \<le> n \<and> n \<le> 222 \<and> n \<noteq> 215)
         then char_of (n + 32) else c)"

definition lower :: "string \<Rightarrow> string" where
  "lower s = map lower_char s"

text \<open>
  \<open>str.splitlines()\<close>: a line ends at \<open>\n\<close>, \<open>\r\<close>, \<open>\r\n\<close>, \<open>\v\<close>, \<open>\f\<close>, \<open>\x1c\<close>,
  \<open>\x1d\<close>, \<open>\x1e\<close> or \<open>\x85\<close>; the terminators are dropped, and no empty line is
  reported after the last terminator.
\<close>

definition line_boundary :: "char \<Rightarrow> bool" where
  "line_boundary c = (c \<in> set [CHR 0x0A, CHR 0x0B, CHR 0x0C, CHR 0x0D,
                                 CHR 0x1C, CHR 0x1D, CHR 0x1E, CHR 0x85])"

fun splitlines_from :: "string \<Rightarrow> string \<Rightarrow> string list" where
  "splitlines_from cur [] = (if cur = [] then [] else [cur])"
| "splitlines_from cur [c] = (if line_boundary c then [cur] else [cur @ [c]])"
| "splitlines_from cur (c # d # cs) =
     (if c = CHR 0x0D \<and> d = CHR 0x0A then cur # splitlines_from [] cs
      else if line_boundary c then cur # splitlines_from [] (d # cs)
      else splitlines_from (cur @ [c]) (d # cs))"

definition splitlines :: "string \<Rightarrow> string list" where
  "splitlines s = splitlines_from [] s"

section \<open>Failures\<close>

text \<open>
  The client raises one exception class, \<open>MCPError\<close>, whose message tells the failures
  apart. The model keeps one constructor for each message, carrying the values the message
  interpolates:
  \<^item> \<open>NetworkError e\<close>: "Network error contacting MCP: e";
  \<^item> \<open>HttpStatus code preview\<close>: "HTTP code from MCP; body preview: ...";
  \<^item> \<open>InvalidJsonBody e preview\<close>: "Invalid JSON from MCP: e, Body preview: ...";
  \<^item> \<open>SseParseFailure e preview\<close>: "Failed to parse SSE: e, Body preview: ...";
  \<^item> \<open>UnexpectedContentType ctype preview\<close>: "Unexpected Content-Type 'ctype'. Body preview: ...";
  \<^item> \<open>InvalidEnvelope preview\<close>: "Invalid JSON-RPC envelope: ...";
  \<^item> \<open>RemoteError code message\<close>: "MCP error code: message", with \<open>JNull\<close> (Python's \<open>None\<close>) for an absent field;
  \<^item> \<open>MissingResult\<close>: "Missing/invalid result in JSON-RPC response";
  \<^item> \<open>InvalidToolsShape preview\<close>: "Invalid tools/list shape: ...";
  \<^item> \<open>SseNoData\<close>: "SSE response contained no 'data:' payload";
  \<^item> \<open>SseInvalidJson e\<close>: "SSE 'data' not valid JSON: e".
  The other exceptions that pass through the modelled code: \<open>JSONDecodeError\<close> with its
  text, and \<open>RecursionError\<close>, \<open>ValueError\<close> and \<open>UnicodeDecodeError\<close>, which the JSON
  decoder raises on a document nested too deep, on an integer of too many digits and on
  bytes that are no text; \<open>AttributeError\<close> (a method looked up on a value that has
  none) and \<open>TypeError\<close>; \<open>BackendError\<close> stands for whatever the chat-completion
  service raises. A handler \<open>except json.JSONDecodeError\<close> takes the first of them only,
  \<open>except MCPError\<close> takes \<open>MCPError\<close> only, and \<open>except Exception\<close> takes them all.
\<close>

datatype mcp_error =
    NetworkError string
  | HttpStatus int string
  | InvalidJsonBody string string
  | SseParseFailure string string
  | UnexpectedContentType string string
  | InvalidEnvelope string
  | RemoteError json json
  | MissingResult
  | InvalidToolsShape string
  | SseNoData
  | SseInvalidJson string

datatype exn =
    MCPError mcp_error
  | JSONDecodeError string
  | RecursionError
  | ValueError string
  | UnicodeDecodeError
  | AttributeError
  | TypeError
  | BackendError string

section \<open>The world outside the repository\<close>

record http_request =
  req_url :: string
  req_json :: json
  req_headers :: "(string \<times> string) list"

text \<open>
  A response as the client reads it: the status, the \<open>Content-Type\<close> header, the body
  as text (\<open>r.text\<close>) and the outcome of \<open>r.json()\<close>, which decodes the bytes of the body
  and may raise any exception of the JSON decoder.
\<close>

record http_response =
  status_code :: int
  content_type :: "string option"
  resp_text :: string
  resp_json :: "exn + json"

record tool_call =
  tc_id :: string
  fn_name :: string
  fn_arguments :: string

record reply =
  content :: "string option"
  tool_calls :: "tool_call list option"

datatype message =
    SystemMsg string
  | UserMsg string
  | AssistantMsg reply
  | ToolMsg string string

record chat_request =
  cr_messages :: "message list"
  cr_tools :: "json list"
  cr_tool_choice :: "string option"

text \<open>
  What the code calls and does not define: \<open>json.loads\<close> (\<open>Inl\<close> the exception it
  raises, a \<open>JSONDecodeError\<close> or another), \<open>json.dumps(_, indent=2)\<close>, \<open>str(e)\<close> of an exception, the HTTP
  session's \<open>post\<close> (\<open>Inl\<close> the text of the \<open>httpx.HTTPError\<close>) and the chat-completion
  service. The last two are given the requests made so far, so that they may answer the
  same request differently at different times.
\<close>

record env =
  json_loads :: "string \<Rightarrow> exn + json"
  json_dumps :: "json \<Rightarrow> string"
  exn_str :: "exn \<Rightarrow> string"
  http_post :: "http_request list \<Rightarrow> http_request \<Rightarrow> string + http_response"
  chat_create :: "chat_request list \<Rightarrow> chat_request \<Rightarrow> exn + reply"

section \<open>The protocol client (mcp_client.py)\<close>

subsection \<open>Server-sent events\<close>

text \<open>
  One iteration of the loop of \<open>_parse_sse_to_json\<close> over the lines, on the pair
  \<open>(data_buf, last_data)\<close>.
\<close>

definition sse_step :: "string list \<times> string option \<Rightarrow> string \<Rightarrow> string list \<times> string option" where
  "sse_step st line =
     (case st of (data_buf, last_data) \<Rightarrow>
        if startswith line '':'' then (data_buf, last_data)
        else if startswith line ''data:'' then (data_buf @ [lstrip (drop 5 line)], last_data)
        else if strip line = [] then
          (if data_buf \<noteq> [] then ([], Some (join ''\<newline>'' data_buf)) else (data_buf, last_data))
        else (data_buf, last_data))"

definition sse_scan :: "string list \<Rightarrow> string list \<times> string option" where
  "sse_scan lines = foldl sse_step ([], None) lines"

text \<open>The payload kept after the loop and the capture of a trailing buffer.\<close>

definition sse_last_data :: "string \<Rightarrow> string option" where
  "sse_last_data body =
     (case sse_scan (splitlines body) of (data_buf, last_data) \<Rightarrow>
        if data_buf \<noteq> [] then Some (join ''\<newline>'' data_buf) else last_data)"

definition parse_sse_to_json :: "env \<Rightarrow> string \<Rightarrow> exn + json" where
  "parse_sse_to_json E body =
     (case sse_last_data body of
        None \<Rightarrow> Inl (MCPError SseNoData)
      | Some last_data \<Rightarrow>
          if last_data = [] then Inl (MCPError SseNoData)
          else (case json_loads E last_data of
                  Inl (JSONDecodeError e) \<Rightarrow> Inl (MCPError (SseInvalidJson e))
                | Inl x \<Rightarrow> Inl x
                | Inr doc \<Rightarrow> Inr doc))"

subsection \<open>The JSON-RPC envelope\<close>

definition unwrap_jsonrpc :: "env \<Rightarrow> json \<Rightarrow> exn + dict" where
  "unwrap_jsonrpc E doc =
     (case doc of
        JObj d \<Rightarrow>
          if get d ''jsonrpc'' \<noteq> JStr ''2.0''
          then Inl (MCPError (InvalidEnvelope (take 800 (json_dumps E doc))))
          else if truthy (get d ''error'') then
            (case get d ''error'' of
               JObj err \<Rightarrow> Inl (MCPError (RemoteError (get err ''code'') (get err ''message'')))
             | _ \<Rightarrow> Inl AttributeError)
          else
            (case get d ''result'' of
               JObj result \<Rightarrow> Inr result
             | _ \<Rightarrow> Inl (MCPError MissingResult))
      | _ \<Rightarrow> Inl (MCPError (InvalidEnvelope (take 800 (json_dumps E doc)))))"

subsection \<open>Requests\<close>

text \<open>
  The client object: its URL, the counter \<open>_id\<close>, the extra headers, and the HTTP session
  \<open>http\<close>, of which the model keeps the requests posted through it, oldest first.
\<close>

record mcp =
  url :: string
  cur_id :: int
  extra_headers :: "(string \<times> string) list"
  http_log :: "http_request list"

definition mcp_init :: "string \<Rightarrow> (string \<times> string) list option \<Rightarrow> mcp" where
  "mcp_init u headers =
     \<lparr>url = u, cur_id = 0,
      extra_headers = (case headers of None \<Rightarrow> [] | Some h \<Rightarrow> h),
      http_log = []\<rparr>"

definition next_id :: "mcp \<Rightarrow> int \<times> mcp" where
  "next_id c = (cur_id c + 1, c\<lparr>cur_id := cur_id c + 1\<rparr>)"

definition body_preview :: "string \<Rightarrow> string" where
  "body_preview t = (if t \<noteq> [] then take 600 t else ''<empty body>'')"

text \<open>
  What \<open>_rpc\<close> does with the response once \<open>post\<close> has returned one. In the first
  branch only a \<open>JSONDecodeError\<close> of \<open>r.json()\<close> is handled; in the second an exception
  of the parser that is no \<open>MCPError\<close> becomes one; in the last branch the \<open>try\<close> block
  holds both \<open>r.json()\<close> and \<open>_unwrap_jsonrpc\<close>, and its \<open>except Exception\<close> handles
  whatever either raises.
\<close>

definition decode_response :: "env \<Rightarrow> http_response \<Rightarrow> exn + dict" where
  "decode_response E r =
     (if status_code r < 200 \<or> status_code r \<ge> 300
      then Inl (MCPError (HttpStatus (status_code r) (body_preview (resp_text r))))
      else
        let ctype = lower (case content_type r of None \<Rightarrow> [] | Some h \<Rightarrow> h)
        in if contains ''application/json'' ctype then
             (case resp_json r of
                Inl (JSONDecodeError e) \<Rightarrow>
                  Inl (MCPError (InvalidJsonBody e (take 600 (resp_text r))))
              | Inl x \<Rightarrow> Inl x
              | Inr doc \<Rightarrow> unwrap_jsonrpc E doc)
           else if contains ''text/event-stream'' ctype then
             (case parse_sse_to_json E (resp_text r) of
                Inl (MCPError m) \<Rightarrow> Inl (MCPError m)
              | Inl e \<Rightarrow> Inl (MCPError (SseParseFailure (exn_str E e) (take 600 (resp_text r))))
              | Inr doc \<Rightarrow> unwrap_jsonrpc E doc)
           else
             (case resp_json r of
                Inl x \<Rightarrow> Inl (MCPError (UnexpectedContentType ctype (body_preview (resp_text r))))
              | Inr doc \<Rightarrow>
                  (case unwrap_jsonrpc E doc of
                     Inl e \<Rightarrow> Inl (MCPError (UnexpectedContentType ctype (body_preview (resp_text r))))
                   | Inr result \<Rightarrow> Inr result)))"

definition rpc :: "env \<Rightarrow> string \<Rightarrow> dict option \<Rightarrow> mcp \<Rightarrow> (exn + dict) \<times> mcp" where
  "rpc E method params c =
     (case next_id c of (i, c1) \<Rightarrow>
        let payload = JObj [(''jsonrpc'', JStr ''2.0''), (''id'', JInt i),
                            (''method'', JStr method),
                            (''params'', JObj (case params of None \<Rightarrow> [] | Some p \<Rightarrow> p))];
            req = \<lparr>req_url = url c1, req_json = payload,
                   req_headers = dict_merge
                     [(''Content-Type'', ''application/json''),
                      (''Accept'', ''application/json, text/event-stream''),
                      (''Connection'', ''keep-alive'')] (extra_headers c1)\<rparr>;
            c2 = c1\<lparr>http_log := http_log c1 @ [req]\<rparr>
        in (case http_post E (http_log c1) req of
              Inl e \<Rightarrow> (Inl (MCPError (NetworkError e)), c2)
            | Inr r \<Rightarrow> (decode_response E r, c2)))"

definition list_tools :: "env \<Rightarrow> mcp \<Rightarrow> (exn + json list) \<times> mcp" where
  "list_tools E c =
     (case rpc E ''tools/list'' None c of
        (Inl e, c') \<Rightarrow> (Inl e, c')
      | (Inr res, c') \<Rightarrow>
          (case get_default res ''tools'' (JArr []) of
             JArr tools \<Rightarrow> (Inr tools, c')
           | _ \<Rightarrow> (Inl (MCPError (InvalidToolsShape (take 800 (json_dumps E (JObj res))))), c')))"

definition call_tool :: "env \<Rightarrow> string \<Rightarrow> json \<Rightarrow> mcp \<Rightarrow> (exn + dict) \<times> mcp" where
  "call_tool E name arguments c =
     rpc E ''tools/call'' (Some [(''name'', JStr name), (''arguments'', arguments)]) c"

section \<open>The assistant (weather_assistant.py)\<close>

subsection \<open>Text of a tool result\<close>

text \<open>
  \<open>for c in content\<close>: a list gives its elements, a string its characters, a dict its
  keys; \<open>None\<close>, a boolean or a number is not iterable.
\<close>

definition iterate :: "json \<Rightarrow> exn + json list" where
  "iterate v =
     (case v of
        JArr xs \<Rightarrow> Inr xs
      | JStr s \<Rightarrow> Inr (map (\<lambda>ch. JStr [ch]) s)
      | JObj kvs \<Rightarrow> Inr (map (\<lambda>kv. JStr (fst kv)) kvs)
      | _ \<Rightarrow> Inl TypeError)"

text \<open>The filter and the expression of the comprehension that builds \<open>parts\<close>.\<close>

definition is_text_part :: "json \<Rightarrow> bool" where
  "is_text_part c = (case c of JObj d \<Rightarrow> get d ''type'' = JStr ''text'' | _ \<Rightarrow> False)"

definition part_text :: "json \<Rightarrow> json" where
  "part_text c = (case c of JObj d \<Rightarrow> get_default d ''text'' (JStr []) | _ \<Rightarrow> JNull)"

text \<open>\<open>sep.join\<close> accepts strings only.\<close>

fun strings_of :: "json list \<Rightarrow> exn + string list" where
  "strings_of [] = Inr []"
| "strings_of (JStr s # vs) = (case strings_of vs of Inl e \<Rightarrow> Inl e | Inr ss \<Rightarrow> Inr (s # ss))"
| "strings_of (v # vs) = Inl TypeError"

definition extract_text :: "env \<Rightarrow> dict \<Rightarrow> exn + string" where
  "extract_text E result =
     (case iterate (get_default result ''content'' (JArr [])) of
        Inl e \<Rightarrow> Inl e
      | Inr items \<Rightarrow>
          let parts = map part_text (filter is_text_part items)
          in (case strings_of (filter truthy parts) of
                Inl e \<Rightarrow> Inl e
              | Inr ps \<Rightarrow>
                  let joined = join ''\<newline>'' ps
                  in Inr (if joined \<noteq> [] then joined else json_dumps E (JObj result))))"

subsection \<open>One question\<close>

text \<open>
  The assistant object: the protocol client, the tool schemas computed once at
  construction, and the chat-completion client, of which the model keeps the requests
  made through it, oldest first. \<open>_log\<close> only prints and is left out.
\<close>

record assistant =
  mcp_client :: mcp
  oa_tools :: "json list"
  chat_log :: "chat_request list"

text \<open>
  The body of \<open>for tc in msg.tool_calls\<close>, on the messages and the client. Only a
  \<open>JSONDecodeError\<close> of the arguments is handled; any other exception of \<open>json.loads\<close>
  leaves the loop, and \<open>ask\<close>, with the messages and the client as they are. The first
  component of the result is that exception, or \<open>None\<close> when the body has run to its end.
\<close>

definition exec_tool_call ::
  "env \<Rightarrow> message list \<times> mcp \<Rightarrow> tool_call \<Rightarrow> exn option \<times> message list \<times> mcp" where
  "exec_tool_call E st tc =
     (case st of (messages, c) \<Rightarrow>
        (case json_loads E (fn_arguments tc) of
           Inl (JSONDecodeError e) \<Rightarrow>
             (None, messages @ [ToolMsg (tc_id tc) (''Bad args: '' @ e)], c)
         | Inl x \<Rightarrow> (Some x, messages, c)
         | Inr fargs \<Rightarrow>
             (case call_tool E (fn_name tc) fargs c of (r, c') \<Rightarrow>
                let txt =
                      (case (case r of Inl e \<Rightarrow> Inl e | Inr result \<Rightarrow> extract_text E result) of
                         Inl e \<Rightarrow> ''Error calling '' @ fn_name tc @ '': '' @ exn_str E e
                       | Inr t \<Rightarrow> t)
                in (None, messages @ [ToolMsg (tc_id tc) txt], c'))))"

fun exec_tool_calls ::
  "env \<Rightarrow> tool_call list \<Rightarrow> message list \<times> mcp \<Rightarrow> exn option \<times> message list \<times> mcp" where
  "exec_tool_calls E [] st = (None, st)"
| "exec_tool_calls E (tc # tcs) st =
     (case exec_tool_call E st tc of
        (Some x, st1) \<Rightarrow> (Some x, st1)
      | (None, st1) \<Rightarrow> exec_tool_calls E tcs st1)"

text \<open>\<open>getattr(msg, "tool_calls", None)\<close> as a condition, and the calls to run.\<close>

definition requested :: "reply \<Rightarrow> tool_call list" where
  "requested msg = (case tool_calls msg of None \<Rightarrow> [] | Some tcs \<Rightarrow> tcs)"

text \<open>
  The loop \<open>for _ in range(2)\<close>, with the number of iterations left as first argument.
  The result is the last reply, or the exception that left the loop (one of \<open>json.loads\<close>
  on the arguments of a tool call, or one of the chat-completion service), and the
  assistant as the run leaves it.
\<close>

fun rounds :: "env \<Rightarrow> nat \<Rightarrow> reply \<Rightarrow> message list \<Rightarrow> assistant \<Rightarrow> (exn + reply) \<times> assistant" where
  "rounds E 0 msg messages a = (Inr msg, a)"
| "rounds E (Suc n) msg messages a =
     (if requested msg = [] then (Inr msg, a)
      else
        (case exec_tool_calls E (requested msg) (messages, mcp_client a) of
           (Some x, messages1, c1) \<Rightarrow> (Inl x, a\<lparr>mcp_client := c1\<rparr>)
         | (None, messages1, c1) \<Rightarrow>
             let req = \<lparr>cr_messages = messages1, cr_tools = oa_tools a, cr_tool_choice = None\<rparr>;
                 a1 = a\<lparr>mcp_client := c1, chat_log := chat_log a @ [req]\<rparr>
             in (case chat_create E (chat_log a) req of
                   Inl e \<Rightarrow> (Inl e, a1)
                 | Inr msg1 \<Rightarrow> rounds E n msg1 (messages1 @ [AssistantMsg msg1]) a1)))"

definition system_prompt :: string where
  "system_prompt = ''You are a helpful weather assistant with access to Xweather tools.''"

definition final_text :: "reply \<Rightarrow> string" where
  "final_text msg = (case content msg of None \<Rightarrow> ''(no content)''
                     | Some t \<Rightarrow> if t \<noteq> [] then t else ''(no content)'')"

definition ask :: "env \<Rightarrow> string \<Rightarrow> assistant \<Rightarrow> (exn + string) \<times> assistant" where
  "ask E question a =
     (let messages = [SystemMsg system_prompt, UserMsg question];
          req = \<lparr>cr_messages = messages, cr_tools = oa_tools a, cr_tool_choice = Some ''auto''\<rparr>;
          a1 = a\<lparr>chat_log := chat_log a @ [req]\<rparr>
      in (case chat_create E (chat_log a) req of
            Inl e \<Rightarrow> (Inl e, a1)
          | Inr msg \<Rightarrow>
              (case rounds E 2 msg (messages @ [AssistantMsg msg]) a1 of
                 (Inl e, a2) \<Rightarrow> (Inl e, a2)
               | (Inr last_msg, a2) \<Rightarrow> (Inr (final_text last_msg), a2))))"

section \<open>Vocabulary of the properties\<close>

subsection \<open>Event streams\<close>

text \<open>
  A line of an event stream that is not blank: a comment is \<open>:\<close> and a text, a data line
  is \<open>data:\<close> and a text, and any other line is written as it is. An event is a list of
  such lines, and a stream is a list of events, each closed by a blank line.
\<close>

datatype sse_item = Comment string | Data string | Other string

fun item_line :: "sse_item \<Rightarrow> string" where
  "item_line (Comment t) = '':'' @ t"
| "item_line (Data t) = ''data:'' @ t"
| "item_line (Other l) = l"

definition event_lines :: "sse_item list \<Rightarrow> string list" where
  "event_lines ev = map item_line ev"

definition stream_lines :: "sse_item list list \<Rightarrow> string list" where
  "stream_lines evs = concat (map (\<lambda>ev. event_lines ev @ [[]]) evs)"

text \<open>
  A text made of lines, each ended by the same end of line: a line feed, or a carriage
  return and a line feed.
\<close>

definition terminated :: "string \<Rightarrow> string list \<Rightarrow> string" where
  "terminated eol ls = concat (map (\<lambda>l. l @ eol) ls)"

definition line_end :: "string \<Rightarrow> bool" where
  "line_end eol = (eol = [CHR 0x0A] \<or> eol = [CHR 0x0D, CHR 0x0A])"

text \<open>
  The payload of a data line as the specification words it: the prefix \<open>data:\<close> and at
  most one following space are removed. The payload of an event is its data lines' payloads
  joined by line feeds.
\<close>

fun one_space_less :: "string \<Rightarrow> string" where
  "one_space_less (c # t) = (if c = CHR '' '' then t else c # t)"
| "one_space_less [] = []"

fun data_texts :: "sse_item list \<Rightarrow> string list" where
  "data_texts [] = []"
| "data_texts (Data t # ev) = t # data_texts ev"
| "data_texts (_ # ev) = data_texts ev"

definition event_payload :: "sse_item list \<Rightarrow> string" where
  "event_payload ev = join ''\<newline>'' (map one_space_less (data_texts ev))"

text \<open>The JSON parse of a payload, as the result of the parser.\<close>

definition decoded :: "env \<Rightarrow> string \<Rightarrow> exn + json" where
  "decoded E payload =
     (case json_loads E payload of
        Inl (JSONDecodeError e) \<Rightarrow> Inl (MCPError (SseInvalidJson e))
      | Inl x \<Rightarrow> Inl x
      | Inr doc \<Rightarrow> Inr doc)"

text \<open>
  Well-formed lines: no line holds a line terminator, and a line that is neither a comment
  nor a data line does not look like one and is not blank.
\<close>

definition no_boundary :: "string \<Rightarrow> bool" where
  "no_boundary l = list_all (\<lambda>c. \<not> line_boundary c) l"

fun item_ok :: "sse_item \<Rightarrow> bool" where
  "item_ok (Comment t) = no_boundary t"
| "item_ok (Data t) = no_boundary t"
| "item_ok (Other l) = (no_boundary l \<and> \<not> startswith l '':'' \<and> \<not> startswith l ''data:''
                         \<and> strip l \<noteq> [])"

definition stream_ok :: "sse_item list list \<Rightarrow> bool" where
  "stream_ok evs = list_all (list_all item_ok) evs"

text \<open>A payload that does not begin with white space.\<close>

definition flush_left :: "string \<Rightarrow> bool" where
  "flush_left t = (case t of [] \<Rightarrow> True | c # _ \<Rightarrow> \<not> py_isspace c)"

text \<open>A text that is white space only.\<close>

definition blank :: "string \<Rightarrow> bool" where
  "blank t = list_all py_isspace t"

subsection \<open>Runs of one client\<close>

datatype client_op = ListTools | CallTool string json

definition run_op :: "env \<Rightarrow> mcp \<Rightarrow> client_op \<Rightarrow> mcp" where
  "run_op E c op =
     (case op of
        ListTools \<Rightarrow> snd (list_tools E c)
      | CallTool name arguments \<Rightarrow> snd (call_tool E name arguments c))"

definition run_ops :: "env \<Rightarrow> client_op list \<Rightarrow> mcp \<Rightarrow> mcp" where
  "run_ops E ops c = foldl (run_op E) c ops"

text \<open>The \<open>id\<close> member of a posted request, when it is an integer.\<close>

definition request_id :: "http_request \<Rightarrow> int option" where
  "request_id req =
     (case req_json req of
        JObj d \<Rightarrow> (case get d ''id'' of JInt i \<Rightarrow> Some i | _ \<Rightarrow> None)
      | _ \<Rightarrow> None)"

definition posted_ids :: "mcp \<Rightarrow> int list" where
  "posted_ids c = List.map_filter request_id (http_log c)"

subsection \<open>Shapes of values\<close>


subsection \<open>Text parts of a tool result\<close>




subsection \<open>Arguments of tool calls\<close>

text \<open>
  On the text, \<open>json.loads\<close> returns a value or raises \<open>JSONDecodeError\<close>, and no other
  exception.
\<close>

definition decodable :: "env \<Rightarrow> string \<Rightarrow> bool" where
  "decodable E s =
     (case json_loads E s of
        Inl (JSONDecodeError e) \<Rightarrow> True
      | Inl x \<Rightarrow> False
      | Inr v \<Rightarrow> True)"

definition all_decodable :: "env \<Rightarrow> reply \<Rightarrow> bool" where
  "all_decodable E msg = list_all (\<lambda>tc. decodable E (fn_arguments tc)) (requested msg)"

subsection \<open>A sample environment\<close>

text \<open>
  The theorems below hold for every environment. To evaluate them at concrete inputs, a
  small one: a decoder that knows four documents, fails with \<open>RecursionError\<close> on a text
  of 100000 opening brackets or more and rejects every other text with a
  \<open>JSONDecodeError\<close>, a serialiser that
  answers a fixed text, a \<open>str\<close> that knows the message of a network failure, an HTTP
  session that answers every request with the given outcome, and a chat-completion service
  that answers every request with the given reply.
\<close>

definition deep_arguments :: string where
  "deep_arguments = replicate 100000 (CHR ''['')"

definition too_deep :: "string \<Rightarrow> bool" where
  "too_deep s = (100000 \<le> length s \<and> list_all (\<lambda>c. c = CHR ''['') s)"

definition ok_body :: string where
  \<open>ok_body = ''{"jsonrpc":"2.0","result":{}}''\<close>

definition err_body :: string where
  \<open>err_body = ''{"jsonrpc":"2.0","error":{"code":-32000,"message":"denied"},"result":{}}''\<close>

definition bad_body :: string where
  \<open>bad_body = ''{"jsonrpc":"2.0","result":{"tools":"none"}}''\<close>

definition sample_loads :: "string \<Rightarrow> exn + json" where
  "sample_loads s =
     (if too_deep s then Inl RecursionError
      else if s = ''{}'' then Inr (JObj [])
      else if s = ok_body then
        Inr (JObj [(''jsonrpc'', JStr ''2.0''), (''result'', JObj [])])
      else if s = err_body then
        Inr (JObj [(''jsonrpc'', JStr ''2.0''),
                   (''error'', JObj [(''code'', JInt (- 32000)), (''message'', JStr ''denied'')]),
                   (''result'', JObj [])])
      else if s = bad_body then
        Inr (JObj [(''jsonrpc'', JStr ''2.0''),
                   (''result'', JObj [(''tools'', JStr ''none'')])])
      else if s = ''{bad'' then
        Inl (JSONDecodeError
               ''Expecting property name enclosed in double quotes: line 1 column 2 (char 1)'')
      else Inl (JSONDecodeError ''Expecting value: line 1 column 1 (char 0)''))"

definition sample_str :: "exn \<Rightarrow> string" where
  "sample_str e =
     (case e of
        MCPError (NetworkError d) \<Rightarrow> ''Network error contacting MCP: '' @ d
      | _ \<Rightarrow> ''(failure)'')"

definition sample_env :: "(string + http_response) \<Rightarrow> reply \<Rightarrow> env" where
  "sample_env outcome answer =
     \<lparr>json_loads = sample_loads,
      json_dumps = (\<lambda>j. ''(dump)''),
      exn_str = sample_str,
      http_post = (\<lambda>log req. outcome),
      chat_create = (\<lambda>log req. Inr answer)\<rparr>"

definition sample_response :: "string \<Rightarrow> string \<Rightarrow> http_response" where
  "sample_response ctype body =
     \<lparr>status_code = 200, content_type = Some ctype, resp_text = body,
      resp_json = sample_loads body\<rparr>"

definition sample_assistant :: assistant where
  "sample_assistant = \<lparr>mcp_client = mcp_init ''u'' None, oa_tools = [], chat_log = []\<rparr>"

definition quiet_reply :: reply where
  "quiet_reply = \<lparr>content = Some ''done'', tool_calls = None\<rparr>"

definition offline :: env where
  "offline = sample_env (Inl ''connection refused'') quiet_reply"


text \<open>
  A reply that requests two tool calls, the first with arguments that do not parse, and the
  environment whose chat-completion service always gives it while the network is down.
\<close>

definition busy_reply :: reply where
  "busy_reply = \<lparr>content = Some ''checking'',
                  tool_calls = Some [\<lparr>tc_id = ''1'', fn_name = ''forecast'', fn_arguments = ''{bad''\<rparr>,
                                     \<lparr>tc_id = ''2'', fn_name = ''forecast'', fn_arguments = ''{}''\<rparr>]\<rparr>"

definition busy :: env where
  "busy = sample_env (Inl ''connection refused'') busy_reply"

text \<open>
  A reply whose first tool call has arguments nested too deep for the decoder, and the
  environment whose chat-completion service always gives it.
\<close>

definition deep_reply :: reply where
  "deep_reply = \<lparr>content = Some ''checking'',
                  tool_calls = Some [\<lparr>tc_id = ''1'', fn_name = ''forecast'', fn_arguments = deep_arguments\<rparr>,
                                     \<lparr>tc_id = ''2'', fn_name = ''forecast'', fn_arguments = ''{}''\<rparr>]\<rparr>"

definition deep :: env where
  "deep = sample_env (Inl ''connection refused'') deep_reply"

section \<open>The envelope\<close>

text \<open>
  Claim C4, as stated: every decoded document with an \<open>error\<close> member yields a remote
  error. The code first requires a dict whose \<open>jsonrpc\<close> member is \<open>"2.0"\<close>, and then tests
  the truth value of the \<open>error\<close> member: a document with an \<open>error\<close> member and no
  \<open>jsonrpc\<close> member is an invalid envelope, and one whose \<open>error\<close> member is \<open>null\<close> is
  answered with its result.
\<close>

theorem error_member_not_always_remote_error:
  "map_of [(''error'', JObj [(''code'', JInt 1), (''message'', JStr ''x'')])] ''error'' \<noteq> None
   \<and> unwrap_jsonrpc offline
        (JObj [(''error'', JObj [(''code'', JInt 1), (''message'', JStr ''x'')])])
      = Inl (MCPError (InvalidEnvelope (take 800 (json_dumps offline
          (JObj [(''error'', JObj [(''code'', JInt 1), (''message'', JStr ''x'')])])))))
   \<and> map_of [(''jsonrpc'', JStr ''2.0''), (''error'', JNull), (''result'', JObj [])] ''error''
      \<noteq> None
   \<and> unwrap_jsonrpc offline
        (JObj [(''jsonrpc'', JStr ''2.0''), (''error'', JNull), (''result'', JObj [])])
      = Inr []"
  by (simp add: unwrap_jsonrpc_def get_def get_default_def sample_env_def offline_def)

text \<open>
  Claim C4, amended: a dict whose \<open>jsonrpc\<close> member is \<open>"2.0"\<close> and whose \<open>error\<close> member
  is a non-empty dict yields the remote error with that dict's \<open>code\<close> and \<open>message\<close>,
  whatever else the document holds, a \<open>result\<close> member included.
\<close>

theorem error_member_yields_remote_error:
  assumes "get d ''jsonrpc'' = JStr ''2.0''"
    and "map_of d ''error'' = Some (JObj err)"
    and "err \<noteq> []"
  shows "unwrap_jsonrpc E (JObj d)
         = Inl (MCPError (RemoteError (get err ''code'') (get err ''message'')))"
  using assms by (simp add: unwrap_jsonrpc_def get_def get_default_def)

theorem error_member_yields_remote_error_witness:
  "unwrap_jsonrpc offline
     (JObj [(''jsonrpc'', JStr ''2.0''),
            (''error'', JObj [(''code'', JInt (- 32000)), (''message'', JStr ''denied'')]),
            (''result'', JObj [])])
   = Inl (MCPError (RemoteError (JInt (- 32000)) (JStr ''denied'')))"
  using error_member_yields_remote_error
    [of "[(''jsonrpc'', JStr ''2.0''),
          (''error'', JObj [(''code'', JInt (- 32000)), (''message'', JStr ''denied'')]),
          (''result'', JObj [])]"
        "[(''code'', JInt (- 32000)), (''message'', JStr ''denied'')]" offline]
  by (simp add: get_def get_default_def)

section \<open>Responses\<close>

text \<open>
  Claim C8 says that, for a content type that is neither JSON nor an event stream, a body
  that parses is validated as an envelope and the failures of the validation keep their
  kind. The code catches them together with the parse failure: at status 200, content type
  \<open>text/plain\<close> and a body that decodes to an envelope with an \<open>error\<close> member, the
  failure is the unexpected content type, where the same body under \<open>application/json\<close>
  gives the remote error.
\<close>

theorem fallback_reports_remote_error_as_content_type:
  "decode_response offline (sample_response ''text/plain'' err_body)
     = Inl (MCPError (UnexpectedContentType ''text/plain'' err_body))
   \<and> json_loads offline err_body
     = Inr (JObj [(''jsonrpc'', JStr ''2.0''),
                  (''error'', JObj [(''code'', JInt (- 32000)), (''message'', JStr ''denied'')]),
                  (''result'', JObj [])])
   \<and> decode_response offline (sample_response ''application/json'' err_body)
     = Inl (MCPError (RemoteError (JInt (- 32000)) (JStr ''denied'')))"
  by (simp add: decode_response_def sample_response_def sample_env_def sample_loads_def too_deep_def ok_body_def err_body_def bad_body_def
      offline_def lower_def lower_char_def startswith_def unwrap_jsonrpc_def get_def
      get_default_def body_preview_def)

section \<open>The tool catalogue\<close>




section \<open>Data lines\<close>

text \<open>
  Claim C7 says that a data line loses its prefix and at most one space, as the comment in
  the code does. The code strips all leading white space: from the line \<open>data:\<close>, two
  spaces, \<open>x\<close> it keeps \<open>x\<close>, not a space and \<open>x\<close>.
\<close>

theorem data_line_loses_all_leading_space:
  "sse_step ([], None) ''data:  x'' = ([''x''], None)
   \<and> one_space_less (drop 5 ''data:  x'') = '' x''"
  by (simp add: sse_step_def startswith_def lstrip_def py_isspace_def)

section \<open>Lines of a text\<close>

lemma line_feed_boundary: "line_boundary CHR 0x0A"
  by (simp add: line_boundary_def)

lemma not_boundary_not_cr: "\<not> line_boundary c \<Longrightarrow> c \<noteq> CHR 0x0D"
  by (auto simp: line_boundary_def)

lemma splitlines_from_line:
  "no_boundary l \<Longrightarrow>
   splitlines_from cur (l @ CHR 0x0A # rest) = (cur @ l) # splitlines_from [] rest"
proof (induction l arbitrary: cur)
  case Nil
  show ?case by (cases rest) (simp_all add: line_feed_boundary)
next
  case (Cons a l)
  from Cons.prems have a: "\<not> line_boundary a" and l: "no_boundary l"
    by (simp_all add: no_boundary_def)
  obtain d ds where t: "l @ CHR 0x0A # rest = d # ds"
    by (cases "l @ CHR 0x0A # rest") auto
  have "splitlines_from cur ((a # l) @ CHR 0x0A # rest) = splitlines_from (cur @ [a]) (l @ CHR 0x0A # rest)"
    using a not_boundary_not_cr [OF a] by (simp add: t)
  with Cons.IH [OF l, of "cur @ [a]"] show ?case by simp
qed

lemma splitlines_from_last:
  "no_boundary l \<Longrightarrow> cur @ l \<noteq> [] \<Longrightarrow> splitlines_from cur l = [cur @ l]"
proof (induction l arbitrary: cur)
  case Nil
  then show ?case by simp
next
  case (Cons a l)
  from Cons.prems have a: "\<not> line_boundary a" and l: "no_boundary l"
    by (simp_all add: no_boundary_def)
  show ?case
  proof (cases l)
    case Nil
    with a show ?thesis by simp
  next
    case (Cons d ds)
    have "splitlines_from cur (a # l) = splitlines_from (cur @ [a]) l"
      using a not_boundary_not_cr [OF a] by (simp add: Cons)
    with Cons.IH [OF l, of "cur @ [a]"] show ?thesis by simp
  qed
qed

lemma splitlines_from_crlf:
  "no_boundary l \<Longrightarrow>
   splitlines_from cur (l @ CHR 0x0D # CHR 0x0A # rest) = (cur @ l) # splitlines_from [] rest"
proof (induction l arbitrary: cur)
  case Nil
  show ?case by simp
next
  case (Cons a l)
  from Cons.prems have a: "\<not> line_boundary a" and l: "no_boundary l"
    by (simp_all add: no_boundary_def)
  obtain d ds where t: "l @ CHR 0x0D # CHR 0x0A # rest = d # ds"
    by (cases "l @ CHR 0x0D # CHR 0x0A # rest") auto
  have "splitlines_from cur ((a # l) @ CHR 0x0D # CHR 0x0A # rest)
        = splitlines_from (cur @ [a]) (l @ CHR 0x0D # CHR 0x0A # rest)"
    using a not_boundary_not_cr [OF a] by (simp add: t)
  with Cons.IH [OF l, of "cur @ [a]"] show ?case by simp
qed

lemma splitlines_from_eol:
  "no_boundary l \<Longrightarrow> line_end eol \<Longrightarrow>
   splitlines_from cur (l @ eol @ rest) = (cur @ l) # splitlines_from [] rest"
  using splitlines_from_line [of l cur rest] splitlines_from_crlf [of l cur rest]
  by (auto simp: line_end_def)

lemma splitlines_terminated_append:
  "list_all no_boundary ls \<Longrightarrow> line_end eol \<Longrightarrow>
   splitlines_from [] (terminated eol ls @ rest) = ls @ splitlines_from [] rest"
proof (induction ls)
  case Nil
  show ?case by (simp add: terminated_def)
next
  case (Cons l ls)
  then have l: "no_boundary l" and ls: "list_all no_boundary ls" by simp_all
  have "terminated eol (l # ls) @ rest = l @ eol @ (terminated eol ls @ rest)"
    by (simp add: terminated_def)
  with splitlines_from_eol [OF l Cons.prems(2), of "[]" "terminated eol ls @ rest"]
    Cons.IH [OF ls Cons.prems(2)]
  show ?case by simp
qed

lemma splitlines_terminated:
  "list_all no_boundary ls \<Longrightarrow> line_end eol \<Longrightarrow> splitlines (terminated eol ls) = ls"
  using splitlines_terminated_append [of ls eol "[]"] by (simp add: splitlines_def)

lemma splitlines_unterminated:
  "list_all no_boundary ls \<Longrightarrow> line_end eol \<Longrightarrow> no_boundary l \<Longrightarrow> l \<noteq> [] \<Longrightarrow>
   splitlines (terminated eol ls @ l) = ls @ [l]"
  using splitlines_terminated_append [of ls eol l] splitlines_from_last [of l "[]"]
  by (simp add: splitlines_def)

section \<open>The scan of an event stream\<close>

lemma sse_step_blank:
  "sse_step (buf, lst) [] = (if buf \<noteq> [] then ([], Some (join ''\<newline>'' buf)) else (buf, lst))"
  by (simp add: sse_step_def startswith_def strip_def lstrip_def rstrip_def)

lemma sse_step_item:
  "item_ok it \<Longrightarrow> sse_step (buf, lst) (item_line it) = (buf @ map lstrip (data_texts [it]), lst)"
  by (cases it) (simp_all add: sse_step_def startswith_def)

lemma data_texts_append: "data_texts (xs @ ys) = data_texts xs @ data_texts ys"
  by (induction xs rule: data_texts.induct) simp_all

lemma scan_event:
  "list_all item_ok ev \<Longrightarrow>
   foldl sse_step (buf, lst) (event_lines ev) = (buf @ map lstrip (data_texts ev), lst)"
proof (induction ev arbitrary: buf)
  case Nil
  show ?case by (simp add: event_lines_def)
next
  case (Cons it ev)
  then have it: "item_ok it" and ev: "list_all item_ok ev" by simp_all
  have d: "data_texts (it # ev) = data_texts [it] @ data_texts ev"
    using data_texts_append [of "[it]" ev] by simp
  show ?case
    using Cons.IH [OF ev, of "buf @ map lstrip (data_texts [it])"] sse_step_item [OF it, of buf lst]
    by (simp add: event_lines_def d del: data_texts.simps)
qed

lemma scan_closed_event:
  "list_all item_ok ev \<Longrightarrow>
   foldl sse_step ([], lst) (event_lines ev @ [[]])
   = ([], if data_texts ev = [] then lst else Some (join ''\<newline>'' (map lstrip (data_texts ev))))"
  by (simp add: scan_event sse_step_blank)

lemma scan_stream_buffer:
  "stream_ok evs \<Longrightarrow> fst (foldl sse_step ([], lst) (stream_lines evs)) = []"
proof (induction evs arbitrary: lst)
  case Nil
  show ?case by (simp add: stream_lines_def)
next
  case (Cons ev evs)
  then have ev: "list_all item_ok ev" and evs: "stream_ok evs" by (simp_all add: stream_ok_def)
  have s: "stream_lines (ev # evs) = (event_lines ev @ [[]]) @ stream_lines evs"
    by (simp add: stream_lines_def)
  have "foldl sse_step ([], lst) (stream_lines (ev # evs))
        = foldl sse_step (foldl sse_step ([], lst) (event_lines ev @ [[]])) (stream_lines evs)"
    unfolding s by (rule foldl_append)
  then show ?case
    unfolding scan_closed_event [OF ev] using Cons.IH [OF evs] by simp
qed

lemma item_line_no_boundary: "item_ok it \<Longrightarrow> no_boundary (item_line it)"
  by (cases it) (simp_all add: no_boundary_def line_boundary_def)

lemma item_line_nonempty: "item_ok it \<Longrightarrow> item_line it \<noteq> []"
  by (cases it) (auto simp: strip_def lstrip_def rstrip_def)

lemma event_lines_no_boundary: "list_all item_ok ev \<Longrightarrow> list_all no_boundary (event_lines ev)"
  by (induction ev) (simp_all add: event_lines_def item_line_no_boundary)

lemma stream_lines_no_boundary: "stream_ok evs \<Longrightarrow> list_all no_boundary (stream_lines evs)"
  by (induction evs) (simp_all add: stream_lines_def stream_ok_def event_lines_no_boundary no_boundary_def)

lemma lstrip_flush_left: "flush_left (one_space_less t) \<Longrightarrow> lstrip t = one_space_less t"
proof (cases t)
  case Nil
  then show ?thesis by (simp add: lstrip_def)
next
  case (Cons c r)
  assume f: "flush_left (one_space_less t)"
  show ?thesis
  proof (cases "c = CHR '' ''")
    case True
    with f Cons have "flush_left r" by simp
    then have "dropWhile py_isspace r = r" by (cases r) (simp_all add: flush_left_def)
    with True Cons show ?thesis by (simp add: lstrip_def py_isspace_def)
  next
    case False
    with f Cons show ?thesis by (simp add: lstrip_def flush_left_def)
  qed
qed

lemma stream_lines_snoc: "stream_lines (evs @ [ev]) = stream_lines evs @ event_lines ev @ [[]]"
  by (simp add: stream_lines_def)

lemma scan_stream_then_event:
  assumes "stream_ok evs" and "list_all item_ok ev"
  shows "fst (foldl sse_step ([], None) (stream_lines evs @ event_lines ev))
         = map lstrip (data_texts ev)"
proof -
  obtain lst where s: "foldl sse_step ([], None) (stream_lines evs) = ([], lst)"
    using scan_stream_buffer [OF assms(1), of None]
    by (cases "foldl sse_step ([], None) (stream_lines evs)") simp
  show ?thesis by (simp add: s scan_event [OF assms(2)])
qed

lemma last_data_of_lines:
  assumes "stream_ok evs" and "list_all item_ok ev" and "data_texts ev \<noteq> []"
  shows "(case sse_scan (stream_lines evs @ event_lines ev) of (data_buf, last_data) \<Rightarrow>
            if data_buf \<noteq> [] then Some (join ''\<newline>'' data_buf) else last_data)
         = Some (join ''\<newline>'' (map lstrip (data_texts ev)))"
  using scan_stream_then_event [OF assms(1,2)] assms(3)
  by (cases "foldl sse_step ([], None) (stream_lines evs @ event_lines ev)")
     (simp add: sse_scan_def)

lemma last_data_of_closed_lines:
  assumes "stream_ok evs" and "list_all item_ok ev" and "data_texts ev \<noteq> []"
  shows "(case sse_scan (stream_lines evs @ event_lines ev @ [[]]) of (data_buf, last_data) \<Rightarrow>
            if data_buf \<noteq> [] then Some (join ''\<newline>'' data_buf) else last_data)
         = Some (join ''\<newline>'' (map lstrip (data_texts ev)))"
proof -
  obtain lst where s: "foldl sse_step ([], None) (stream_lines evs) = ([], lst)"
    using scan_stream_buffer [OF assms(1), of None]
    by (cases "foldl sse_step ([], None) (stream_lines evs)") simp
  have "foldl sse_step ([], None) (stream_lines evs @ event_lines ev @ [[]])
        = foldl sse_step ([], lst) (event_lines ev @ [[]])"
    by (simp add: s)
  with scan_closed_event [OF assms(2), of lst] assms(3) show ?thesis
    by (simp add: sse_scan_def)
qed

lemma parse_of_last_data:
  "sse_last_data body = Some p \<Longrightarrow> p \<noteq> [] \<Longrightarrow> parse_sse_to_json E body = decoded E p"
  by (simp add: parse_sse_to_json_def decoded_def)

lemma payload_as_scanned:
  "list_all (\<lambda>t. flush_left (one_space_less t)) ts \<Longrightarrow> map lstrip ts = map one_space_less ts"
  by (induction ts) (simp_all add: lstrip_flush_left)

text \<open>
  On plain lines the parser is right. For a stream of events, each closed by a blank line,
  with comments and other lines among the data lines, every line ended by a line feed or
  every line by a carriage return and a line feed, and no line holding a character at which
  \<open>splitlines\<close> ends a line: when the last event has a data line and a payload that is
  not empty, written after \<open>data:\<close> and at most one space, the parser returns the JSON
  parse of that payload, whatever the events before it hold, also when the blank line after
  the last event is missing and when the last line is not terminated either.
\<close>

lemma parse_sse_on_plain_lines:
  assumes ok: "stream_ok (evs @ [ev])"
    and dat: "data_texts ev \<noteq> []"
    and fl: "list_all (\<lambda>t. flush_left (one_space_less t)) (data_texts ev)"
    and ne: "event_payload ev \<noteq> []"
    and eol: "line_end eol"
  shows "parse_sse_to_json E (terminated eol (stream_lines (evs @ [ev])))
         = decoded E (event_payload ev)
       \<and> parse_sse_to_json E (terminated eol (stream_lines evs @ event_lines ev))
         = decoded E (event_payload ev)
       \<and> parse_sse_to_json E (terminated eol (stream_lines evs @ butlast (event_lines ev))
                               @ last (event_lines ev))
         = decoded E (event_payload ev)"
proof -
  from ok have evs: "stream_ok evs" and ev: "list_all item_ok ev"
    by (simp_all add: stream_ok_def)
  have p: "join ''\<newline>'' (map lstrip (data_texts ev)) = event_payload ev"
    by (simp add: event_payload_def payload_as_scanned [OF fl])
  have nb: "list_all no_boundary (stream_lines evs @ event_lines ev)"
    by (simp add: stream_lines_no_boundary [OF evs] event_lines_no_boundary [OF ev])
  from dat have nonempty: "ev \<noteq> []" by auto
  have a: "sse_last_data (terminated eol (stream_lines (evs @ [ev]))) = Some (event_payload ev)"
    using last_data_of_closed_lines [OF evs ev dat] nb
    by (simp add: sse_last_data_def stream_lines_snoc splitlines_terminated [OF _ eol]
        no_boundary_def p)
  have b: "sse_last_data (terminated eol (stream_lines evs @ event_lines ev)) = Some (event_payload ev)"
    using last_data_of_lines [OF evs ev dat] nb
    by (simp add: sse_last_data_def splitlines_terminated [OF _ eol] p)
  have lines: "butlast (event_lines ev) @ [last (event_lines ev)] = event_lines ev"
    using nonempty by (simp add: event_lines_def)
  have nb_last: "no_boundary (last (event_lines ev))" "last (event_lines ev) \<noteq> []"
    using ev nonempty
    by (simp_all add: event_lines_def last_map item_line_no_boundary item_line_nonempty list_all_iff)
  have nb_front: "list_all no_boundary (stream_lines evs @ butlast (event_lines ev))"
    using nb by (auto simp: list_all_iff dest: in_set_butlastD)
  have "splitlines (terminated eol (stream_lines evs @ butlast (event_lines ev)) @ last (event_lines ev))
        = (stream_lines evs @ butlast (event_lines ev)) @ [last (event_lines ev)]"
    by (rule splitlines_unterminated [OF nb_front eol nb_last])
  then have c: "sse_last_data (terminated eol (stream_lines evs @ butlast (event_lines ev))
                               @ last (event_lines ev)) = Some (event_payload ev)"
    using last_data_of_lines [OF evs ev dat] by (simp add: sse_last_data_def lines p)
  from a b c ne show ?thesis by (simp add: parse_of_last_data)
qed

lemma parse_sse_on_plain_lines_example:
  "parse_sse_to_json offline '':hb\<newline>data:  [1]\<newline>\<newline>event: message\<newline>data: {}\<newline>:x\<newline>\<newline>''
     = Inr (JObj [])
   \<and> parse_sse_to_json offline '':hb\<newline>data:  [1]\<newline>\<newline>event: message\<newline>data: {}\<newline>:x\<newline>''
     = Inr (JObj [])
   \<and> parse_sse_to_json offline '':hb\<newline>data:  [1]\<newline>\<newline>event: message\<newline>data: {}\<newline>:x''
     = Inr (JObj [])"
  using parse_sse_on_plain_lines [of "[[Comment ''hb'', Data ''  [1]'']]"
               "[Other ''event: message'', Data '' {}'', Comment ''x'']" "''\<newline>''" offline]
  by (simp add: stream_ok_def no_boundary_def line_boundary_def startswith_def strip_def
      lstrip_def rstrip_def py_isspace_def flush_left_def event_payload_def
      terminated_def stream_lines_def event_lines_def decoded_def offline_def sample_env_def
      line_end_def
      sample_loads_def too_deep_def ok_body_def err_body_def bad_body_def)

text \<open>
  Claim C3 says that the parser returns the JSON parse of the payload of the last event for
  every event stream. An event stream ends its lines at line feeds and carriage returns
  only, and \<open>splitlines\<close> ends them at other characters too: in the body made of the line
  \<open>data: {"a":"x\<close>, the character 0x85, \<open>y"}\<close> and a blank line, the payload is a JSON
  document, the data line is cut at the character 0x85, and what the parser decodes is the
  text before it. And since all leading white space of a data line is stripped, the body made
  of the line \<open>data:\<close>, the character 0xA0, \<open>{}\<close> and a blank line has \<open>{}\<close> decoded,
  where the payload begins with the character 0xA0.
\<close>

theorem line_separator_cuts_payload:
  \<open>sse_last_data (''data: {"a":"x'' @ [CHR 0x85] @ ''y"}'' @ ''\<newline>\<newline>'') = Some ''{"a":"x''
   \<and> parse_sse_to_json E (''data: {"a":"x'' @ [CHR 0x85] @ ''y"}'' @ ''\<newline>\<newline>'')
     = decoded E ''{"a":"x''
   \<and> one_space_less ('' {"a":"x'' @ [CHR 0x85] @ ''y"}'') = ''{"a":"x'' @ [CHR 0x85] @ ''y"}''
   \<and> sse_last_data (''data:'' @ [CHR 0xA0] @ ''{}'' @ ''\<newline>\<newline>'') = Some ''{}''
   \<and> one_space_less ([CHR 0xA0] @ ''{}'') = [CHR 0xA0] @ ''{}''\<close>
proof -
  have a: \<open>sse_last_data (''data: {"a":"x'' @ [CHR 0x85] @ ''y"}'' @ ''\<newline>\<newline>'') = Some ''{"a":"x''\<close>
    by (simp add: sse_last_data_def sse_scan_def sse_step_def splitlines_def line_boundary_def
        startswith_def lstrip_def rstrip_def strip_def py_isspace_def)
  have b: "sse_last_data (''data:'' @ [CHR 0xA0] @ ''{}'' @ ''\<newline>\<newline>'') = Some ''{}''"
    by (simp add: sse_last_data_def sse_scan_def sse_step_def splitlines_def line_boundary_def
        startswith_def lstrip_def rstrip_def strip_def py_isspace_def)
  from a b show ?thesis by (simp add: parse_sse_to_json_def decoded_def)
qed

lemma blank_lstrip: "blank t \<Longrightarrow> lstrip t = []"
  by (simp add: blank_def lstrip_def list_all_iff)

lemma scan_blank_stream:
  assumes "stream_ok evs"
    and "list_all (\<lambda>ev. length (data_texts ev) \<le> 1 \<and> list_all blank (data_texts ev)) evs"
  shows "foldl sse_step ([], lst) (stream_lines evs)
         = ([], if concat (map data_texts evs) = [] then lst else Some [])"
  using assms
proof (induction evs arbitrary: lst)
  case Nil
  show ?case by (simp add: stream_lines_def)
next
  case (Cons ev evs)
  then have ev: "list_all item_ok ev" and evs: "stream_ok evs"
    and one: "length (data_texts ev) \<le> 1" and bl: "list_all blank (data_texts ev)"
    and rest: "list_all (\<lambda>ev. length (data_texts ev) \<le> 1 \<and> list_all blank (data_texts ev)) evs"
    by (simp_all add: stream_ok_def)
  have j: "data_texts ev \<noteq> [] \<Longrightarrow> join ''\<newline>'' (map lstrip (data_texts ev)) = []"
    using one bl by (cases "data_texts ev") (simp_all add: blank_lstrip)
  have "foldl sse_step ([], lst) (stream_lines (ev # evs))
        = foldl sse_step (foldl sse_step ([], lst) (event_lines ev @ [[]])) (stream_lines evs)"
    by (simp add: stream_lines_def)
  then show ?case
    unfolding scan_closed_event [OF ev] using Cons.IH [OF evs rest] j by simp
qed

text \<open>
  Claim C10: a last payload captured as the empty string is handled as if none had been
  captured. In a stream whose events have at most one data line each, blank after
  \<open>data:\<close>, the payload kept is the empty string as soon as there is a data line, and
  the parser fails with the no-data error; so it does on every body whose kept payload is
  the empty string or none.
\<close>

theorem empty_payload_is_no_data:
  assumes "stream_ok evs"
    and "list_all (\<lambda>ev. length (data_texts ev) \<le> 1 \<and> list_all blank (data_texts ev)) evs"
    and "line_end eol"
  shows "sse_last_data (terminated eol (stream_lines evs))
           = (if concat (map data_texts evs) = [] then None else Some [])
       \<and> parse_sse_to_json E (terminated eol (stream_lines evs)) = Inl (MCPError SseNoData)
       \<and> (sse_last_data body = Some [] \<longrightarrow>
            parse_sse_to_json E body = Inl (MCPError SseNoData))
       \<and> (sse_last_data body = None \<longrightarrow>
            parse_sse_to_json E body = Inl (MCPError SseNoData))"
proof -
  have "sse_last_data (terminated eol (stream_lines evs))
           = (if concat (map data_texts evs) = [] then None else Some [])"
    using scan_blank_stream [OF assms(1,2), of None] stream_lines_no_boundary [OF assms(1)]
    by (simp add: sse_last_data_def splitlines_terminated [OF _ assms(3)] sse_scan_def)
  then show ?thesis by (simp add: parse_sse_to_json_def)
qed

theorem empty_payload_is_no_data_witness:
  "sse_last_data ''data:\<newline>:a\<newline>\<newline>data: \<newline>\<newline>'' = Some []
   \<and> parse_sse_to_json offline ''data:\<newline>:a\<newline>\<newline>data: \<newline>\<newline>''
     = Inl (MCPError SseNoData)"
  using empty_payload_is_no_data [where evs = "[[Data [], Comment ''a''], [Data '' '']]" and E = offline
      and eol = "''\<newline>''"
      and body = "''data:\<newline>:a\<newline>\<newline>data: \<newline>\<newline>''"]
  by (simp add: stream_ok_def no_boundary_def line_boundary_def blank_def py_isspace_def
      terminated_def stream_lines_def event_lines_def line_end_def)

section \<open>Request ids\<close>

lemma rpc_posted: "posted_ids (snd (rpc E m p c)) = posted_ids c @ [cur_id c + 1]"
  by (simp add: rpc_def next_id_def Let_def request_id_def get_def get_default_def posted_ids_def
      List.map_filter_def split: sum.splits)

lemma rpc_cur_id: "cur_id (snd (rpc E m p c)) = cur_id c + 1"
  by (simp add: rpc_def next_id_def Let_def split: sum.splits)

lemma rpc_log_length: "length (http_log (snd (rpc E m p c))) = Suc (length (http_log c))"
  by (simp add: rpc_def next_id_def Let_def split: sum.splits)

lemma list_tools_snd: "snd (list_tools E c) = snd (rpc E ''tools/list'' None c)"
  by (cases "rpc E ''tools/list'' None c") (auto simp: list_tools_def split: sum.splits json.splits)

lemma run_op_posted: "posted_ids (run_op E c op) = posted_ids c @ [cur_id c + 1]"
  by (cases op) (simp_all add: run_op_def list_tools_snd call_tool_def rpc_posted)

lemma run_op_cur_id: "cur_id (run_op E c op) = cur_id c + 1"
  by (cases op) (simp_all add: run_op_def list_tools_snd call_tool_def rpc_cur_id)

lemma run_op_log_length: "length (http_log (run_op E c op)) = Suc (length (http_log c))"
  by (cases op) (simp_all add: run_op_def list_tools_snd call_tool_def rpc_log_length)

lemma run_ops_posted:
  "posted_ids (run_ops E ops c) = posted_ids c @ [cur_id c + 1 .. cur_id c + int (length ops)]
   \<and> length (http_log (run_ops E ops c)) = length (http_log c) + length ops"
proof (induction ops arbitrary: c)
  case Nil
  show ?case by (simp add: run_ops_def)
next
  case (Cons op ops)
  have step: "run_ops E (op # ops) c = run_ops E ops (run_op E c op)"
    by (simp add: run_ops_def)
  have up: "(cur_id c + 1) # [2 + cur_id c..cur_id c + 1 + int (length ops)]
            = [cur_id c + 1..cur_id c + (1 + int (length ops))]"
    using upto_rec1 [of "cur_id c + 1" "cur_id c + (1 + int (length ops))"]
    by (simp add: algebra_simps)
  show ?case
    unfolding step using Cons.IH [of "run_op E c op"]
    by (simp add: run_op_posted run_op_cur_id run_op_log_length up)
qed

lemma sorted_upto_strict: "sorted_wrt (<) [i..j]"
  by (simp add: sorted_wrt_iff_nth_less)

text \<open>
  Claim C9: a new client starts its counter at 0; after any sequence of operations, the
  requests it has posted carry the ids 1, 2, ... in this order, one for each operation
  whether it succeeded or not, so the ids increase strictly and none is used twice.
\<close>

theorem request_ids_count_up:
  "cur_id (mcp_init u h) = 0
   \<and> posted_ids (run_ops E ops (mcp_init u h)) = [1 .. int (length ops)]
   \<and> length (http_log (run_ops E ops (mcp_init u h))) = length ops
   \<and> sorted_wrt (<) (posted_ids (run_ops E ops (mcp_init u h)))
   \<and> distinct (posted_ids (run_ops E ops (mcp_init u h)))"
proof -
  have p: "posted_ids (mcp_init u h) = []" "cur_id (mcp_init u h) = 0" "http_log (mcp_init u h) = []"
    by (simp_all add: posted_ids_def mcp_init_def List.map_filter_def)
  from run_ops_posted [of E ops "mcp_init u h"] p
  show ?thesis by (simp add: sorted_upto_strict)
qed

theorem request_ids_count_up_witness:
  "posted_ids (run_ops offline [ListTools, CallTool ''f'' (JObj []), ListTools]
                 (mcp_init ''u'' None)) = [1, 2, 3]"
  using request_ids_count_up [of "''u''" None offline
          "[ListTools, CallTool ''f'' (JObj []), ListTools]"]
  by (simp add: upto_rec1)

section \<open>Text of a tool result\<close>







section \<open>The rounds of one question\<close>

lemma exec_tool_call_decodable:
  "decodable E (fn_arguments tc) \<Longrightarrow> fst (exec_tool_call E st tc) = None"
  by (cases st) (auto simp: exec_tool_call_def decodable_def Let_def split: sum.splits exn.splits prod.splits)

lemma exec_tool_calls_decodable:
  "list_all (\<lambda>tc. decodable E (fn_arguments tc)) tcs \<Longrightarrow> fst (exec_tool_calls E tcs st) = None"
proof (induction tcs arbitrary: st)
  case Nil
  show ?case by simp
next
  case (Cons tc tcs)
  then have d: "decodable E (fn_arguments tc)"
    and ds: "list_all (\<lambda>tc. decodable E (fn_arguments tc)) tcs" by simp_all
  obtain st1 where s: "exec_tool_call E st tc = (None, st1)"
    using exec_tool_call_decodable [OF d, of st] by (cases "exec_tool_call E st tc") simp
  show ?case using Cons.IH [OF ds, of st1] by (simp add: s)
qed

lemma rounds_Suc_cases:
  obtains (quiet) "requested msg = []" and "rounds E (Suc n) msg ms a = (Inr msg, a)"
  | (aborted) x ms1 c1 where "requested msg \<noteq> []"
      and "exec_tool_calls E (requested msg) (ms, mcp_client a) = (Some x, ms1, c1)"
      and "rounds E (Suc n) msg ms a = (Inl x, a\<lparr>mcp_client := c1\<rparr>)"
  | (refused) ms1 c1 e where "requested msg \<noteq> []"
      and "exec_tool_calls E (requested msg) (ms, mcp_client a) = (None, ms1, c1)"
      and "chat_create E (chat_log a)
             \<lparr>cr_messages = ms1, cr_tools = oa_tools a, cr_tool_choice = None\<rparr> = Inl e"
      and "rounds E (Suc n) msg ms a
           = (Inl e, a\<lparr>mcp_client := c1, chat_log := chat_log a @
                [\<lparr>cr_messages = ms1, cr_tools = oa_tools a, cr_tool_choice = None\<rparr>]\<rparr>)"
  | (answered) ms1 c1 m where "requested msg \<noteq> []"
      and "exec_tool_calls E (requested msg) (ms, mcp_client a) = (None, ms1, c1)"
      and "chat_create E (chat_log a)
             \<lparr>cr_messages = ms1, cr_tools = oa_tools a, cr_tool_choice = None\<rparr> = Inr m"
      and "rounds E (Suc n) msg ms a
           = rounds E n m (ms1 @ [AssistantMsg m])
               (a\<lparr>mcp_client := c1, chat_log := chat_log a @
                [\<lparr>cr_messages = ms1, cr_tools = oa_tools a, cr_tool_choice = None\<rparr>]\<rparr>)"
proof (cases "requested msg = []")
  case True
  then show ?thesis by (intro quiet) simp_all
next
  case False
  obtain r ms1 c1 where x: "exec_tool_calls E (requested msg) (ms, mcp_client a) = (r, ms1, c1)"
    by (cases "exec_tool_calls E (requested msg) (ms, mcp_client a)") auto
  show ?thesis
  proof (cases r)
    case (Some e)
    with False x show ?thesis by (intro aborted [of e ms1 c1]) simp_all
  next
    case None
    show ?thesis
    proof (cases "chat_create E (chat_log a)
             \<lparr>cr_messages = ms1, cr_tools = oa_tools a, cr_tool_choice = None\<rparr>")
      case (Inl e)
      with False x None show ?thesis by (intro refused [of ms1 c1 e]) (simp_all add: Let_def)
    next
      case (Inr m)
      with False x None show ?thesis by (intro answered [of ms1 c1 m]) (simp_all add: Let_def)
    qed
  qed
qed

lemma rounds_chat_log:
  "length (chat_log a) \<le> length (chat_log (snd (rounds E n msg ms a)))
   \<and> length (chat_log (snd (rounds E n msg ms a))) \<le> length (chat_log a) + n"
proof (induction n arbitrary: msg ms a)
  case 0
  show ?case by simp
next
  case (Suc n)
  show ?case
  proof (cases rule: rounds_Suc_cases [where msg = msg and E = E and ms = ms and a = a and n = n])
    case quiet
    then show ?thesis by simp
  next
    case (aborted x ms1 c1)
    then show ?thesis by simp
  next
    case (refused ms1 c1 e)
    then show ?thesis by simp
  next
    case (answered ms1 c1 m)
    show ?thesis unfolding answered(4)
      using Suc.IH [of "a\<lparr>mcp_client := c1, chat_log := chat_log a @
                [\<lparr>cr_messages = ms1, cr_tools = oa_tools a, cr_tool_choice = None\<rparr>]\<rparr>"
              m "ms1 @ [AssistantMsg m]"]
      by simp
  qed
qed

text \<open>When the loop has made all its calls, its outcome is that of the last call.\<close>

lemma rounds_at_cap:
  assumes "length (chat_log (snd (rounds E n msg ms a))) = length (chat_log a) + n"
    and "0 < n"
    and "chat_create E (butlast (chat_log (snd (rounds E n msg ms a))))
           (last (chat_log (snd (rounds E n msg ms a)))) = Inr m"
  shows "fst (rounds E n msg ms a) = Inr m"
  using assms
proof (induction n arbitrary: msg ms a)
  case 0
  then show ?case by simp
next
  case (Suc n)
  show ?case
  proof (cases rule: rounds_Suc_cases [where msg = msg and E = E and ms = ms and a = a and n = n])
    case quiet
    with Suc.prems(1) show ?thesis by simp
  next
    case (aborted x ms1 c1)
    with Suc.prems(1) show ?thesis by simp
  next
    case (refused ms1 c1 e)
    with Suc.prems(1) have "n = 0" by simp
    with refused Suc.prems(3) show ?thesis by simp
  next
    case (answered ms1 c1 m1)
    let ?a1 = "a\<lparr>mcp_client := c1, chat_log := chat_log a @
                [\<lparr>cr_messages = ms1, cr_tools = oa_tools a, cr_tool_choice = None\<rparr>]\<rparr>"
    show ?thesis
    proof (cases n)
      case 0
      with answered Suc.prems(3) show ?thesis by simp
    next
      case (Suc k)
      have len: "length (chat_log (snd (rounds E n m1 (ms1 @ [AssistantMsg m1]) ?a1)))
                 = length (chat_log ?a1) + n"
        using Suc.prems(1) unfolding answered(4) by simp
      have "fst (rounds E n m1 (ms1 @ [AssistantMsg m1]) ?a1) = Inr m"
        using Suc.prems(3) unfolding answered(4)
        by (intro Suc.IH [OF len]) (simp_all add: Suc)
      then show ?thesis unfolding answered(4) .
    qed
  qed
qed

lemma rounds_returns:
  assumes "\<And>log req. \<exists>m. chat_create E log req = Inr m \<and> all_decodable E m"
    and "all_decodable E msg"
  shows "\<exists>m. fst (rounds E n msg ms a) = Inr m"
  using assms(2)
proof (induction n arbitrary: msg ms a)
  case 0
  show ?case by simp
next
  case (Suc n)
  show ?case
  proof (cases rule: rounds_Suc_cases [where msg = msg and E = E and ms = ms and a = a and n = n])
    case quiet
    then show ?thesis by simp
  next
    case (aborted x ms1 c1)
    with exec_tool_calls_decodable [of E "requested msg" "(ms, mcp_client a)"] Suc.prems
    show ?thesis by (simp add: all_decodable_def)
  next
    case (refused ms1 c1 e)
    with assms(1) show ?thesis by (metis sum.distinct(1))
  next
    case (answered ms1 c1 m)
    with assms(1) have "all_decodable E m" by (metis Inr_inject)
    then show ?thesis unfolding answered(4) by (rule Suc.IH)
  qed
qed

lemma rounds_all_busy:
  assumes "\<And>log req. \<exists>m. chat_create E log req = Inr m \<and> requested m \<noteq> [] \<and> all_decodable E m"
    and "requested msg \<noteq> []" and "all_decodable E msg"
  shows "length (chat_log (snd (rounds E n msg ms a))) = length (chat_log a) + n"
  using assms(2,3)
proof (induction n arbitrary: msg ms a)
  case 0
  show ?case by simp
next
  case (Suc n)
  show ?case
  proof (cases rule: rounds_Suc_cases [where msg = msg and E = E and ms = ms and a = a and n = n])
    case quiet
    with Suc.prems show ?thesis by simp
  next
    case (aborted x ms1 c1)
    with exec_tool_calls_decodable [of E "requested msg" "(ms, mcp_client a)"] Suc.prems
    show ?thesis by (simp add: all_decodable_def)
  next
    case (refused ms1 c1 e)
    with assms(1) show ?thesis by (metis sum.distinct(1))
  next
    case (answered ms1 c1 m)
    with assms(1) have "requested m \<noteq> []" "all_decodable E m" by (metis Inr_inject)+
    then show ?thesis unfolding answered(4)
      using Suc.IH [of m "ms1 @ [AssistantMsg m]" "a\<lparr>mcp_client := c1, chat_log := chat_log a @
                [\<lparr>cr_messages = ms1, cr_tools = oa_tools a, cr_tool_choice = None\<rparr>]\<rparr>"]
      by simp
  qed
qed

lemma rounds_result_origin:
  "fst (rounds E n msg ms a) = Inr m \<Longrightarrow> m = msg \<or> (\<exists>log req. chat_create E log req = Inr m)"
proof (induction n arbitrary: msg ms a)
  case 0
  then show ?case by simp
next
  case (Suc n)
  show ?case
  proof (cases rule: rounds_Suc_cases [where msg = msg and E = E and ms = ms and a = a and n = n])
    case quiet
    with Suc.prems show ?thesis by simp
  next
    case (aborted x ms1 c1)
    with Suc.prems show ?thesis by simp
  next
    case (refused ms1 c1 e)
    with Suc.prems show ?thesis by simp
  next
    case (answered ms1 c1 m1)
    with Suc.prems Suc.IH [of m1 "ms1 @ [AssistantMsg m1]"] show ?thesis by auto
  qed
qed

lemma ask_cases:
  obtains (refused) e where "chat_create E (chat_log a)
        \<lparr>cr_messages = [SystemMsg system_prompt, UserMsg q], cr_tools = oa_tools a,
           cr_tool_choice = Some ''auto''\<rparr> = Inl e"
      and "ask E q a = (Inl e, a\<lparr>chat_log := chat_log a @ [\<lparr>cr_messages = [SystemMsg system_prompt, UserMsg q], cr_tools = oa_tools a,
           cr_tool_choice = Some ''auto''\<rparr>]\<rparr>)"
  | (answered) msg r where "chat_create E (chat_log a)
        \<lparr>cr_messages = [SystemMsg system_prompt, UserMsg q], cr_tools = oa_tools a,
           cr_tool_choice = Some ''auto''\<rparr> = Inr msg"
      and "r = rounds E 2 msg [SystemMsg system_prompt, UserMsg q, AssistantMsg msg]
                 (a\<lparr>chat_log := chat_log a @ [\<lparr>cr_messages = [SystemMsg system_prompt, UserMsg q], cr_tools = oa_tools a,
           cr_tool_choice = Some ''auto''\<rparr>]\<rparr>)"
      and "ask E q a = (case fst r of Inl e \<Rightarrow> Inl e | Inr m \<Rightarrow> Inr (final_text m), snd r)"
proof (cases "chat_create E (chat_log a)
        \<lparr>cr_messages = [SystemMsg system_prompt, UserMsg q], cr_tools = oa_tools a,
           cr_tool_choice = Some ''auto''\<rparr>")
  case (Inl e)
  then show ?thesis by (intro refused [of e]) (simp_all add: ask_def Let_def)
next
  case (Inr msg)
  then show ?thesis
    by (intro answered [of msg]) (auto simp add: ask_def Let_def split: prod.splits sum.splits)
qed

text \<open>
  Claim C1: one run of \<open>ask\<close> makes at least one and at most three chat-completion calls,
  whatever the service, the decoder and the tools do. When a run has made its third call and
  the service has answered it, \<open>ask\<close> returns the text of that answer, whether the answer
  requests tool calls or not. When the service answers every call and the decoder returns or
  rejects the arguments it is given, \<open>ask\<close> returns a text; when moreover every answer
  requests tool calls, \<open>ask\<close> makes exactly three calls and returns the text of a reply
  that still requests tool calls.
\<close>

theorem ask_chat_calls_bounded:
  "length (chat_log a) + 1 \<le> length (chat_log (snd (ask E q a)))
   \<and> length (chat_log (snd (ask E q a))) \<le> length (chat_log a) + 3
   \<and> (length (chat_log (snd (ask E q a))) = length (chat_log a) + 3
        \<and> chat_create E (butlast (chat_log (snd (ask E q a))))
             (last (chat_log (snd (ask E q a)))) = Inr m
      \<longrightarrow> fst (ask E q a) = Inr (final_text m))
   \<and> ((\<forall>log req. \<exists>m. chat_create E log req = Inr m \<and> all_decodable E m)
      \<longrightarrow> (\<exists>t. fst (ask E q a) = Inr t))
   \<and> ((\<forall>log req. \<exists>m. chat_create E log req = Inr m \<and> requested m \<noteq> [] \<and> all_decodable E m)
      \<longrightarrow> length (chat_log (snd (ask E q a))) = length (chat_log a) + 3
          \<and> (\<exists>m. fst (ask E q a) = Inr (final_text m) \<and> requested m \<noteq> []))"
proof (cases rule: ask_cases [where E = E and q = q and a = a])
  case (refused e)
  then show ?thesis by auto (metis sum.distinct(1))+
next
  case (answered msg r)
  let ?a1 = "a\<lparr>chat_log := chat_log a @ [\<lparr>cr_messages = [SystemMsg system_prompt, UserMsg q],
                 cr_tools = oa_tools a, cr_tool_choice = Some ''auto''\<rparr>]\<rparr>"
  let ?ms = "[SystemMsg system_prompt, UserMsg q, AssistantMsg msg]"
  have s: "snd (ask E q a) = snd r" by (simp add: answered(3))
  have bound: "length (chat_log a) + 1 \<le> length (chat_log (snd (ask E q a)))
               \<and> length (chat_log (snd (ask E q a))) \<le> length (chat_log a) + 3"
    using rounds_chat_log [of ?a1 E 2 msg ?ms] by (simp add: s answered(2))
  have cap: "fst (ask E q a) = Inr (final_text m)"
    if len: "length (chat_log (snd (ask E q a))) = length (chat_log a) + 3"
      and last: "chat_create E (butlast (chat_log (snd (ask E q a))))
             (last (chat_log (snd (ask E q a)))) = Inr m"
  proof -
    have "length (chat_log (snd (rounds E 2 msg ?ms ?a1))) = length (chat_log ?a1) + 2"
      using len by (simp add: s answered(2))
    moreover have "chat_create E (butlast (chat_log (snd (rounds E 2 msg ?ms ?a1))))
           (last (chat_log (snd (rounds E 2 msg ?ms ?a1)))) = Inr m"
      using last by (simp add: s answered(2))
    ultimately have "fst (rounds E 2 msg ?ms ?a1) = Inr m"
      by (intro rounds_at_cap) simp_all
    then show ?thesis by (simp add: answered(2,3))
  qed
  have ret: "\<exists>t. fst (ask E q a) = Inr t"
    if h: "\<forall>log req. \<exists>m. chat_create E log req = Inr m \<and> all_decodable E m"
  proof -
    from h answered(1) have d: "all_decodable E msg" by (metis Inr_inject)
    from h have h1: "\<And>log req. \<exists>m. chat_create E log req = Inr m \<and> all_decodable E m" by blast
    obtain m where "fst r = Inr m"
      unfolding answered(2) using rounds_returns [OF h1 d, of 2 ?ms ?a1] by blast
    then show ?thesis by (simp add: answered(3))
  qed
  have busy: "length (chat_log (snd (ask E q a))) = length (chat_log a) + 3
        \<and> (\<exists>m. fst (ask E q a) = Inr (final_text m) \<and> requested m \<noteq> [])"
    if h: "\<forall>log req. \<exists>m. chat_create E log req = Inr m \<and> requested m \<noteq> [] \<and> all_decodable E m"
  proof -
    from h answered(1) have rq: "requested msg \<noteq> []" and d: "all_decodable E msg"
      by (metis Inr_inject)+
    from h have h1: "\<And>log req. \<exists>m. chat_create E log req = Inr m \<and> requested m \<noteq> [] \<and> all_decodable E m"
      by blast
    from h have h2: "\<And>log req. \<exists>m. chat_create E log req = Inr m \<and> all_decodable E m" by blast
    have n: "length (chat_log (snd r)) = length (chat_log ?a1) + 2"
      unfolding answered(2) by (rule rounds_all_busy [OF h1 rq d])
    obtain m where m: "fst r = Inr m"
      unfolding answered(2) using rounds_returns [OF h2 d, of 2 ?ms ?a1] by blast
    then have "m = msg \<or> (\<exists>log req. chat_create E log req = Inr m)"
      unfolding answered(2) by (rule rounds_result_origin)
    with h rq have "requested m \<noteq> []" by (metis Inr_inject)
    with m n show ?thesis by (auto simp add: s answered(3))
  qed
  from bound cap ret busy show ?thesis by blast
qed

lemma busy_decodable: "all_decodable busy busy_reply"
  by (simp add: all_decodable_def decodable_def busy_def sample_env_def busy_reply_def
      requested_def sample_loads_def too_deep_def ok_body_def err_body_def bad_body_def)

theorem ask_chat_calls_bounded_witness:
  "length (chat_log (snd (ask busy ''q'' sample_assistant))) = 3
   \<and> fst (ask busy ''q'' sample_assistant) = Inr ''checking''
   \<and> requested busy_reply \<noteq> []"
proof -
  have r: "requested busy_reply \<noteq> []" by (simp add: busy_reply_def requested_def)
  have h: "\<forall>log req. \<exists>m. chat_create busy log req = Inr m \<and> requested m \<noteq> []
             \<and> all_decodable busy m"
    using r busy_decodable by (simp add: busy_def sample_env_def)
  have c: "chat_create busy log req = Inr busy_reply" for log req
    by (simp add: busy_def sample_env_def)
  from ask_chat_calls_bounded [of sample_assistant busy "''q''" busy_reply] h
  have n: "length (chat_log (snd (ask busy ''q'' sample_assistant))) = 3"
    by (simp add: sample_assistant_def)
  with ask_chat_calls_bounded [of sample_assistant busy "''q''" busy_reply] c
  have "fst (ask busy ''q'' sample_assistant) = Inr (final_text busy_reply)"
    by (simp add: sample_assistant_def)
  then have "fst (ask busy ''q'' sample_assistant) = Inr ''checking''"
    by (simp add: final_text_def busy_reply_def)
  with n r show ?thesis by simp
qed

text \<open>
  Claim C2 says that a tool call whose arguments do not parse gets a diagnostic tool
  message, that the loop goes on with the calls that follow, and that no tool failure ends
  the conversation. The code handles the \<open>JSONDecodeError\<close> of \<open>json.loads\<close> and no other
  exception of it: when the first of two tool calls has 100000 opening brackets as
  arguments, on which the decoder raises \<open>RecursionError\<close>, the loop over the calls stops
  with no tool message and no request to the client, the second call is not run, and \<open>ask\<close>
  raises that exception after one chat-completion call. Arguments that the decoder rejects
  with \<open>JSONDecodeError\<close>, and a call that the client fails, do get their tool messages.
\<close>

lemma deep_loads: "json_loads deep deep_arguments = Inl RecursionError"
  by (simp add: deep_def sample_env_def sample_loads_def too_deep_def deep_arguments_def list_all_iff)

theorem undecodable_arguments_abort_ask:
  "json_loads deep deep_arguments = Inl RecursionError
   \<and> requested deep_reply
     = [\<lparr>tc_id = ''1'', fn_name = ''forecast'', fn_arguments = deep_arguments\<rparr>,
        \<lparr>tc_id = ''2'', fn_name = ''forecast'', fn_arguments = ''{}''\<rparr>]
   \<and> exec_tool_calls deep (requested deep_reply) ([], mcp_init ''u'' None)
     = (Some RecursionError, [], mcp_init ''u'' None)
   \<and> fst (ask deep ''q'' sample_assistant) = Inl RecursionError
   \<and> length (chat_log (snd (ask deep ''q'' sample_assistant))) = 1
   \<and> fst (exec_tool_calls busy (requested busy_reply) ([], mcp_init ''u'' None)) = None
   \<and> fst (snd (exec_tool_calls busy (requested busy_reply) ([], mcp_init ''u'' None)))
     = [ToolMsg ''1'' (''Bad args: Expecting property name enclosed in double quotes: ''
                        @ ''line 1 column 2 (char 1)''),
        ToolMsg ''2'' ''Error calling forecast: Network error contacting MCP: connection refused'']"
proof -
  have r: "requested deep_reply
     = [\<lparr>tc_id = ''1'', fn_name = ''forecast'', fn_arguments = deep_arguments\<rparr>,
        \<lparr>tc_id = ''2'', fn_name = ''forecast'', fn_arguments = ''{}''\<rparr>]"
    by (simp add: requested_def deep_reply_def)
  have x: "exec_tool_calls deep (requested deep_reply) (ms, c) = (Some RecursionError, ms, c)" for ms c
    by (simp add: r exec_tool_call_def deep_loads)
  have c: "chat_create deep log req = Inr deep_reply" for log req
    by (simp add: deep_def sample_env_def)
  have ne: "requested deep_reply \<noteq> []" by (simp add: r)
  have a: "ask deep ''q'' sample_assistant
           = (Inl RecursionError,
              sample_assistant\<lparr>chat_log := [\<lparr>cr_messages = [SystemMsg system_prompt, UserMsg ''q''],
                 cr_tools = oa_tools sample_assistant, cr_tool_choice = Some ''auto''\<rparr>]\<rparr>)"
    by (simp add: ask_def c x ne numeral_2_eq_2 sample_assistant_def Let_def)
  have b: "exec_tool_calls busy (requested busy_reply) ([], mcp_init ''u'' None)
           = (None,
              [ToolMsg ''1'' (''Bad args: Expecting property name enclosed in double quotes: ''
                        @ ''line 1 column 2 (char 1)''),
               ToolMsg ''2'' ''Error calling forecast: Network error contacting MCP: connection refused''],
              snd (snd (exec_tool_calls busy (requested busy_reply) ([], mcp_init ''u'' None))))"
    by (simp add: busy_def sample_env_def busy_reply_def requested_def exec_tool_call_def
        call_tool_def rpc_def next_id_def mcp_init_def sample_loads_def too_deep_def
        ok_body_def err_body_def bad_body_def sample_str_def Let_def)
  have b1: "fst (exec_tool_calls busy (requested busy_reply) ([], mcp_init ''u'' None)) = None"
    by (subst b) simp
  have b2: "fst (snd (exec_tool_calls busy (requested busy_reply) ([], mcp_init ''u'' None)))
     = [ToolMsg ''1'' (''Bad args: Expecting property name enclosed in double quotes: ''
                        @ ''line 1 column 2 (char 1)''),
        ToolMsg ''2'' ''Error calling forecast: Network error contacting MCP: connection refused'']"
    by (subst b) simp
  from deep_loads r x a b1 b2 show ?thesis by simp
qed

end
